theory Spec2Isabelle
  imports Complex_Main "HOL-Library.Multiset"
begin

section \<open>Data model of \<^verbatim>\<open>Fsa.py\<close>\<close>

text \<open>
  An edge label is polymorphic in the source: a Python \<^verbatim>\<open>str\<close> (a character, a word, a
  phoneme, the blank marker \<^verbatim>\<open>'blank'\<close>, the place holders \<^verbatim>\<open>'_'\<close> and \<^verbatim>\<open>'*'\<close>), an
  \<^verbatim>\<open>int\<close> (a label index or a repetition label), or a list (a triphone, later with the
  allophone state appended). Python's \<^verbatim>\<open>==\<close> between values of different kinds is False, as
  the equality of this datatype is.
\<close>

datatype label = LStr string | LInt int | LList "label list"

text \<open>
  The fifth component of an edge (the word position). ASG and CTC edges and the edges of
  the lemma acceptor have four components only (\<open>NoField\<close>); loop edges carry \<^verbatim>\<open>None\<close>.
\<close>

datatype pos_tag = NoField | PyNone | PStr string

datatype edge = Edge (e_from: int) (e_to: int) (e_label: label) (e_weight: real) (e_pos: pos_tag)

datatype error = AssertionError | IndexError | TypeError

datatype fsa_type = ASG | CTC | HMM

text \<open>The fields of the class \<^verbatim>\<open>Fsa\<close> that the graph builders read and write.\<close>

record fsa =
  num_states :: int
  edges :: "edge list"
  final_states :: "int list"
  lemma_seq :: "label list"

definition SIL :: label where
  "SIL = LStr ''_''"

definition EPS :: label where
  "EPS = LStr ''*''"

definition label_blank :: label where
  "label_blank = LStr ''blank''"

text \<open>
  \<^verbatim>\<open>[edge_index for edge_index, edge in enumerate(edges) if P(edge)]\<close>, the comprehension
  the source uses throughout.
\<close>

definition indices_where :: "('a \<Rightarrow> bool) \<Rightarrow> 'a list \<Rightarrow> nat list" where
  "indices_where P xs = filter (\<lambda>i. P (xs ! i)) [0..<length xs]"

text \<open>A \<^verbatim>\<open>for\<close> loop whose body may raise: the first error ends the loop.\<close>

fun for_each :: "'a list \<Rightarrow> ('a \<Rightarrow> 's \<Rightarrow> error + 's) \<Rightarrow> 's \<Rightarrow> error + 's" where
  "for_each [] body s = Inr s"
| "for_each (x # xs) body s =
     (case body x s of Inl er \<Rightarrow> Inl er | Inr s' \<Rightarrow> for_each xs body s')"

section \<open>ASG: repetition folding\<close>

text \<open>
  The local variables of \<^verbatim>\<open>_check_for_repetitions_for_asg\<close>. \<open>index_old\<close> starts as
  \<^verbatim>\<open>None\<close>, which no label equals.
\<close>

record rep_state =
  reps :: "label list"
  rep_count :: int
  index_old :: "label option"

definition rep_init :: rep_state where
  "rep_init = \<lparr>reps = [], rep_count = 0, index_old = None\<rparr>"

text \<open>One pass of the \<^verbatim>\<open>for index in self.lemma\<close> loop.\<close>

definition rep_step :: "int \<Rightarrow> int \<Rightarrow> label \<Rightarrow> rep_state \<Rightarrow> rep_state" where
  "rep_step asg_repetition num_labels index st =
     (let st' =
        (if Some index = index_old st then
           (if rep_count st < asg_repetition then st\<lparr>rep_count := rep_count st + 1\<rparr>
            else if rep_count st \<noteq> 0 then
              st\<lparr>reps := reps st @ [LInt (num_labels + rep_count st)], rep_count := 1\<rparr>
            else st)
         else
           (let st1 =
              (if rep_count st \<noteq> 0 then
                 st\<lparr>reps := reps st @ [LInt (num_labels + rep_count st)], rep_count := 0\<rparr>
               else st)
            in st1\<lparr>reps := reps st1 @ [index]\<rparr>))
      in st'\<lparr>index_old := Some index\<rparr>)"

definition rep_scan :: "int \<Rightarrow> int \<Rightarrow> label list \<Rightarrow> rep_state" where
  "rep_scan asg_repetition num_labels lem = fold (rep_step asg_repetition num_labels) lem rep_init"

definition check_for_repetitions_for_asg :: "int \<Rightarrow> int \<Rightarrow> label list \<Rightarrow> label list" where
  "check_for_repetitions_for_asg asg_repetition num_labels lem =
     (if asg_repetition = 0 then lem else reps (rep_scan asg_repetition num_labels lem))"

section \<open>ASG: linear chain\<close>

text \<open>\<^verbatim>\<open>ord(label)\<close> is defined on a string of one character only.\<close>

definition py_ord :: "label \<Rightarrow> error + int" where
  "py_ord l = (case l of LStr [c] \<Rightarrow> Inr (of_char c) | _ \<Rightarrow> Inl TypeError)"

definition convert_label_step :: "int \<Rightarrow> label \<Rightarrow> label list \<Rightarrow> error + label list" where
  "convert_label_step num_labels l label_indices =
     (case py_ord l of
        Inl er \<Rightarrow> Inl er
      | Inr label_index \<Rightarrow>
          if label_index < num_labels then Inr (label_indices @ [LInt label_index])
          else Inl AssertionError)"

definition convert_label_seq_to_indices :: "int \<Rightarrow> label list \<Rightarrow> error + label list" where
  "convert_label_seq_to_indices num_labels lemma_orig =
     for_each lemma_orig (convert_label_step num_labels) []"

definition create_states_from_label_for_asg :: "fsa \<Rightarrow> fsa" where
  "create_states_from_label_for_asg self =
     self\<lparr>edges := fold (\<lambda>rep_index es.
                 es @ [Edge (int rep_index) (int rep_index + 1) (lemma_seq self ! rep_index) 1 NoField])
               [0..<length (lemma_seq self)] (edges self),
          num_states := int (length (lemma_seq self)) + 1\<rparr>"

section \<open>Self-loop insertion\<close>

text \<open>
  The body of the loop over the states in \<^verbatim>\<open>_adds_loop_edges\<close>. When no edge other than
  an epsilon edge ends in the state, \<^verbatim>\<open>edges_included[0]\<close> raises: inside the \<^verbatim>\<open>try\<close> the
  error is caught, in the next line it is not. Reading component 4 of an edge of four
  components is caught as well and gives \<^verbatim>\<open>None\<close>.
\<close>

definition loop_edge_step :: "int \<Rightarrow> edge list \<Rightarrow> error + edge list" where
  "loop_edge_step state es =
     (case indices_where (\<lambda>e. e_to e = state \<and> e_label e \<noteq> EPS) es of
        [] \<Rightarrow> Inl IndexError
      | k # _ \<Rightarrow>
          (let label_pos = (case e_pos (es ! k) of NoField \<Rightarrow> PyNone | p \<Rightarrow> p)
           in Inr (es @ [Edge state state (e_label (es ! k)) 0 label_pos])))"

definition adds_loop_edges :: "fsa_type \<Rightarrow> fsa \<Rightarrow> error + fsa" where
  "adds_loop_edges t self =
     (let countloops = (case t of HMM \<Rightarrow> num_states self - 1 | _ \<Rightarrow> num_states self)
      in case for_each [1..countloops - 1] loop_edge_step (edges self) of
           Inl er \<Rightarrow> Inl er
         | Inr es \<Rightarrow> Inr (self\<lparr>edges := es\<rparr>))"

section \<open>CTC stages\<close>

text \<open>
  \<^verbatim>\<open>xs[k]\<close> for an index \<open>k\<close> that may be negative (Python counts from the end then).
  It is used where the source reads inside the list only: \<open>-1 \<le> k < len(xs)\<close> and
  \<open>xs\<close> is not empty.
\<close>

definition py_item :: "'a list \<Rightarrow> int \<Rightarrow> 'a" where
  "py_item xs k = xs ! nat (if k < 0 then int (length xs) + k else k)"

definition ctc_alloc :: "label list \<Rightarrow> fsa" where
  "ctc_alloc lem =
     \<lparr>num_states = 2 * (int (length lem) + 1) - 1, edges = [], final_states = [],
      lemma_seq = lem\<rparr>"

definition ctc_label_step :: "label list \<Rightarrow> nat \<Rightarrow> edge list \<Rightarrow> edge list" where
  "ctc_label_step lem label_index es =
     (if lem ! label_index \<noteq> py_item lem (int label_index - 1) then
        (let n = 2 * int label_index in es @ [Edge n (n + 2) (lem ! label_index) 1 NoField])
      else es)"

definition create_states_from_label_seq_for_ctc :: "fsa \<Rightarrow> fsa" where
  "create_states_from_label_seq_for_ctc self =
     self\<lparr>edges := fold (ctc_label_step (lemma_seq self)) [0..<length (lemma_seq self)]
                      (edges self)\<rparr>"

definition ctc_blank_step :: "label list \<Rightarrow> nat \<Rightarrow> int \<times> edge list \<Rightarrow> int \<times> edge list" where
  "ctc_blank_step lem label_index st =
     (let label_blank_idx = 2 * int label_index + 1
      in (label_blank_idx,
          snd st @ [Edge (label_blank_idx - 1) label_blank_idx label_blank 1 NoField,
                    Edge label_blank_idx (label_blank_idx + 1) (lem ! label_index) 1 NoField]))"

definition adds_blank_states_for_ctc :: "fsa \<Rightarrow> fsa" where
  "adds_blank_states_for_ctc self =
     (let st = fold (ctc_blank_step (lemma_seq self)) [0..<length (lemma_seq self)]
                 (0, edges self)
      in self\<lparr>edges := snd st, final_states := final_states self @ [fst st + 1]\<rparr>)"

definition adds_last_state_for_ctc :: "fsa \<Rightarrow> error + fsa" where
  "adds_last_state_for_ctc self =
     (let i = num_states self
      in if lemma_seq self = [] then Inl IndexError
         else Inr (self\<lparr>edges := edges self @
                           [Edge (i - 3) i label_blank 1 NoField,
                            Edge i (i + 1) (py_item (lemma_seq self) (- 1)) 1 NoField,
                            Edge (i + 1) (i + 2) label_blank 1 NoField],
                         num_states := i + 3,
                         final_states := final_states self @ [i + 3 - 1]\<rparr>))"

section \<open>Final-state merging\<close>

text \<open>
  The tuple appended for an edge that ends in a former final state: its start node and its
  label, the new final state as end node, weight \<open>1.\<close>.
\<close>

definition final_state_edge :: "int \<Rightarrow> edge \<Rightarrow> edge" where
  "final_state_edge new_final e = Edge (e_from e) new_final (e_label e) 1 NoField"

definition final_state_step :: "int \<Rightarrow> int \<Rightarrow> edge list \<Rightarrow> edge list" where
  "final_state_step new_num_states fstate es =
     fold (\<lambda>fstate_edge es'. es' @ [final_state_edge (new_num_states - 1) (es' ! fstate_edge)])
       (indices_where (\<lambda>e. e_to e = fstate) es) es"

definition make_single_final_state :: "fsa \<Rightarrow> fsa" where
  "make_single_final_state self =
     (if length (final_states self) = 1 \<and> final_states self ! 0 = num_states self - 1 then self
      else self\<lparr>num_states := num_states self + 1,
                edges := fold (final_state_step (num_states self + 1)) (final_states self)
                           (edges self)\<rparr>)"

section \<open>The driver\<close>

definition lemma_of :: "bool \<Rightarrow> int \<Rightarrow> label list \<Rightarrow> error + label list" where
  "lemma_of label_conversion num_labels lemma_orig =
     (if label_conversion then convert_label_seq_to_indices num_labels lemma_orig
      else Inr lemma_orig)"

text \<open>
  \<^verbatim>\<open>Fsa.run\<close>, the branch for the type \<^verbatim>\<open>asg\<close>: the label sequence, repetition
  folding, the chain and the loops.
\<close>

definition run_asg :: "bool \<Rightarrow> int \<Rightarrow> int \<Rightarrow> label list \<Rightarrow> error + fsa" where
  "run_asg label_conversion asg_repetition num_labels lemma_orig =
     (case lemma_of label_conversion num_labels lemma_orig of
        Inl er \<Rightarrow> Inl er
      | Inr lem \<Rightarrow>
          adds_loop_edges ASG
            (create_states_from_label_for_asg
               \<lparr>num_states = 0, edges = [], final_states = [],
                lemma_seq = check_for_repetitions_for_asg asg_repetition num_labels lem\<rparr>))"

text \<open>The state of the CTC builder before \<^verbatim>\<open>_adds_last_state_for_ctc\<close> is called.\<close>

definition ctc_before_last_state :: "label list \<Rightarrow> fsa" where
  "ctc_before_last_state lem =
     adds_blank_states_for_ctc (create_states_from_label_seq_for_ctc (ctc_alloc lem))"

text \<open>\<^verbatim>\<open>Fsa.run\<close>, the branch for the type \<^verbatim>\<open>ctc\<close>.\<close>

definition run_ctc :: "bool \<Rightarrow> int \<Rightarrow> label list \<Rightarrow> error + fsa" where
  "run_ctc label_conversion num_labels lemma_orig =
     (case lemma_of label_conversion num_labels lemma_orig of
        Inl er \<Rightarrow> Inl er
      | Inr lem \<Rightarrow>
          (case adds_last_state_for_ctc (ctc_before_last_state lem) of
             Inl er \<Rightarrow> Inl er
           | Inr s3 \<Rightarrow>
               (case adds_loop_edges CTC s3 of
                  Inl er \<Rightarrow> Inl er
                | Inr s4 \<Rightarrow> Inr (make_single_final_state s4))))"

text \<open>
  The state \<open>s\<close> has no outgoing edge other than a loop on itself: every edge either
  starts elsewhere or ends in \<open>s\<close>.
\<close>

definition no_outgoing :: "edge list \<Rightarrow> int \<Rightarrow> bool" where
  "no_outgoing es s = list_all (\<lambda>e. e_from e \<noteq> s \<or> e_to e = s) es"

section \<open>HMM: lemma acceptor\<close>

text \<open>\<^verbatim>\<open>s.split(" ")\<close>: every single space separates two (possibly empty) words.\<close>

fun py_split_space :: "string \<Rightarrow> string list" where
  "py_split_space [] = [[]]"
| "py_split_space (c # cs) =
     (if c = CHR '' '' then [] # py_split_space cs
      else (case py_split_space cs of [] \<Rightarrow> [[c]] | w # ws \<Rightarrow> (c # w) # ws))"

datatype lemma_input = LemmaStr string | LemmaList "string list"

definition lemma_words :: "lemma_input \<Rightarrow> string list" where
  "lemma_words lemma_orig =
     (case lemma_orig of LemmaStr s \<Rightarrow> py_split_space s | LemmaList ws \<Rightarrow> ws)"

text \<open>
  One pass of the loop over the words; the state is \<open>(num_states, edges)\<close>. The inner
  loop runs over \<^verbatim>\<open>epsil = [self._SIL, self._EPS]\<close>.
\<close>

definition lemma_epsil_step :: "nat \<Rightarrow> int \<Rightarrow> int \<Rightarrow> label \<Rightarrow> int \<times> edge list \<Rightarrow> int \<times> edge list" where
  "lemma_epsil_step word_idx start_node end_node i st =
     (let st1 = (if word_idx = 0 then
                   (fst st + 1, snd st @ [Edge (start_node - 1) (end_node - 1) i 0 NoField])
                 else st)
      in (fst st1 + 1, snd st1 @ [Edge (start_node + 1) (end_node + 1) i 0 NoField]))"

definition lemma_word_step :: "string list \<Rightarrow> nat \<Rightarrow> int \<times> edge list \<Rightarrow> int \<times> edge list" where
  "lemma_word_step lem word_idx st =
     (let start_node = 2 * (int word_idx + 1) - 1;
          end_node = start_node + 1
      in fold (lemma_epsil_step word_idx start_node end_node) [SIL, EPS]
           (fst st, snd st @ [Edge start_node end_node (LStr (lem ! word_idx)) 0 NoField]))"

definition lemma_acceptor_for_hmm_fsa :: "lemma_input \<Rightarrow> fsa \<Rightarrow> fsa" where
  "lemma_acceptor_for_hmm_fsa lemma_orig self =
     (let lem = lemma_words lemma_orig;
          st = fold (lemma_word_step lem) [0..<length lem] (0, [])
      in self\<lparr>num_states := fst st, edges := snd st, lemma_seq := map LStr lem\<rparr>)"

section \<open>HMM: node renumbering\<close>

text \<open>
  \<^verbatim>\<open>edges[edge_key][c] = v\<close> on an edge that is a list: component 0 is the start node,
  1 the end node, 2 the label.
\<close>

definition set_item :: "nat \<Rightarrow> int \<Rightarrow> edge \<Rightarrow> edge" where
  "set_item c v e =
     (if c = 0 then Edge v (e_to e) (e_label e) (e_weight e) (e_pos e)
      else if c = 1 then Edge (e_from e) v (e_label e) (e_weight e) (e_pos e)
      else Edge (e_from e) (e_to e) (LInt v) (e_weight e) (e_pos e))"

text \<open>\<^verbatim>\<open>_find_node_edges\<close>: the dictionary from edge index to 0, 1 or 2.\<close>

definition find_node_edges :: "int \<Rightarrow> edge list \<Rightarrow> (nat \<rightharpoonup> nat)" where
  "find_node_edges node es =
     (let pos_start = indices_where (\<lambda>e. e_from e = node) es;
          pos_end = indices_where (\<lambda>e. e_to e = node) es;
          pos_start_end = indices_where (\<lambda>e. e_from e = node \<and> e_to e = node) es;
          d0 = fold (\<lambda>pos d. d(pos \<mapsto> 0)) pos_start Map.empty;
          d1 = fold (\<lambda>pos d. d(pos \<mapsto> 1)) pos_end d0
      in fold (\<lambda>pos d. d(pos \<mapsto> 2)) pos_start_end d1)"

text \<open>
  \<^verbatim>\<open>for edge_key in d.keys(): edges[edge_key][d[edge_key]] = v\<close>. The keys are indices of
  \<open>edges\<close> and each key writes to its own edge, so the order of the keys plays no role.
\<close>

definition assign_nodes :: "(nat \<rightharpoonup> nat) \<Rightarrow> int \<Rightarrow> edge list \<Rightarrow> edge list" where
  "assign_nodes d v es =
     map (\<lambda>edge_key. case d edge_key of None \<Rightarrow> es ! edge_key
                                       | Some c \<Rightarrow> set_item c v (es ! edge_key))
       [0..<length es]"

definition swap_nodes :: "int \<Rightarrow> int \<Rightarrow> edge list \<Rightarrow> edge list" where
  "swap_nodes cur_edge_start cur_edge_end es =
     (let edges_cur_start = find_node_edges cur_edge_start es;
          edges_cur_end = find_node_edges cur_edge_end es
      in assign_nodes edges_cur_end cur_edge_start
           (assign_nodes edges_cur_start cur_edge_end es))"

text \<open>
  The \<^verbatim>\<open>while\<close> loop of \<^verbatim>\<open>_sort_node_num\<close>, from the index \<open>idx\<close>. After an exchange
  the source sets \<^verbatim>\<open>idx = 0\<close> and then runs \<^verbatim>\<open>idx += 1\<close>, as after every pass. The loop
  need not end, so the result is optional.
\<close>

partial_function (option) sort_node_num_from :: "nat \<Rightarrow> edge list \<Rightarrow> edge list option" where
  "sort_node_num_from idx es =
     (if idx < length es then
        (if e_from (es ! idx) > e_to (es ! idx) then
           sort_node_num_from (0 + 1) (swap_nodes (e_from (es ! idx)) (e_to (es ! idx)) es)
         else sort_node_num_from (idx + 1) es)
      else Some es)"

declare sort_node_num_from.simps [code]

definition sort_node_num :: "edge list \<Rightarrow> edge list option" where
  "sort_node_num es = sort_node_num_from 0 es"





text \<open>
  The edge lists that the two callers of \<^verbatim>\<open>_sort_node_num\<close> pass (the phoneme acceptor and
  the allophone state acceptor): the first edge starts in state 0, every edge ends in a
  state above 0, so that no edge enters state 0, and no edge is a loop (loops are added
  later, by \<^verbatim>\<open>_adds_loop_edges\<close>).
\<close>

definition renumbering_input :: "edge list \<Rightarrow> bool" where
  "renumbering_input es =
     ((case es of [] \<Rightarrow> True | e # _ \<Rightarrow> e_from e = 0)
      \<and> list_all (\<lambda>e. 0 < e_to e \<and> e_from e \<noteq> e_to e) es)"

section \<open>HMM: allophone state acceptor\<close>

text \<open>\<^verbatim>\<open>edge_label.extend(label)\<close>: the items of a list, the characters of a string.\<close>

definition label_items :: "label \<Rightarrow> error + label list" where
  "label_items l =
     (case l of LList xs \<Rightarrow> Inr xs
              | LStr s \<Rightarrow> Inr (map (\<lambda>c. LStr [c]) s)
              | LInt k \<Rightarrow> Inl TypeError)"

text \<open>
  One pass of \<^verbatim>\<open>for state in range(self.allo_num_states)\<close> for the edge \<open>edge_t\<close>; the
  state is \<open>(num_states_output, edges_output)\<close>.
\<close>

definition allo_state_step :: "int \<Rightarrow> edge \<Rightarrow> int \<Rightarrow> int \<times> edge list \<Rightarrow> error + int \<times> edge list" where
  "allo_state_step allo_num_states edge_t state st =
     (case label_items (e_label edge_t) of
        Inl er \<Rightarrow> Inl er
      | Inr items \<Rightarrow>
          (if e_pos edge_t = NoField then Inl IndexError
           else
             (let edge_label = LList (items @ [LInt state]);
                  num_states_output = fst st;
                  ends =
                    (if state = 0 then (e_from edge_t, num_states_output, num_states_output + 1)
                     else if state = allo_num_states - 1 then
                       (num_states_output, e_to edge_t, num_states_output + 1)
                     else (num_states_output - 1, num_states_output, num_states_output))
              in Inr (snd (snd ends),
                      snd st @ [Edge (fst ends) (fst (snd ends)) edge_label (e_weight edge_t)
                                  (e_pos edge_t)]))))"

definition allo_edge_step :: "int \<Rightarrow> edge \<Rightarrow> int \<times> edge list \<Rightarrow> error + int \<times> edge list" where
  "allo_edge_step allo_num_states edge_t st =
     (if e_label edge_t = SIL \<or> e_label edge_t = EPS then Inr (fst st, snd st @ [edge_t])
      else if allo_num_states > 1 then
        for_each (map int [0..<nat allo_num_states]) (allo_state_step allo_num_states edge_t) st
      else Inr st)"

definition allophone_state_acceptor_for_hmm_fsa :: "int \<Rightarrow> fsa \<Rightarrow> (error + fsa) option" where
  "allophone_state_acceptor_for_hmm_fsa allo_num_states self =
     (case for_each (edges self) (allo_edge_step allo_num_states) (num_states self, []) of
        Inl er \<Rightarrow> Some (Inl er)
      | Inr st \<Rightarrow>
          (case sort_node_num (snd st) of
             None \<Rightarrow> None
           | Some es \<Rightarrow> Some (Inr (self\<lparr>num_states := fst st, edges := es\<rparr>))))"

section \<open>Index comprehensions and loops\<close>

lemma filter_as_nth: "filter P xs = filter P (map ((!) xs) [0..<length xs])"
  by (simp add: map_nth)

lemma filter_nth_upt:
  "filter P (map ((!) xs) [0..<length xs]) = map ((!) xs) (filter (P \<circ> (!) xs) [0..<length xs])"
  by (simp only: filter_map)

lemma map_nth_indices_where: "map ((!) xs) (indices_where P xs) = filter P xs"
  unfolding indices_where_def using filter_as_nth [of P xs] filter_nth_upt [of P xs]
  by (simp only: comp_def)

lemma indices_where_bound: "k \<in> set (indices_where P xs) \<Longrightarrow> k < length xs"
  by (simp add: indices_where_def)

lemma indices_where_Nil: "indices_where P xs = [] \<Longrightarrow> filter P xs = []"
  using map_nth_indices_where [of xs P] by simp

lemma indices_where_Cons:
  assumes "indices_where P xs = k # ks"
  shows "filter P xs = xs ! k # map ((!) xs) ks"
proof -
  have "map ((!) xs) (indices_where P xs) = map ((!) xs) (k # ks)"
    by (simp only: assms)
  then show ?thesis by (simp only: map_nth_indices_where list.map)
qed

lemma loop_edge_step_Inr:
  assumes "loop_edge_step state es = Inr es'"
  shows "\<exists>l p. es' = es @ [Edge state state l 0 p]"
  using assms by (auto simp add: loop_edge_step_def Let_def split: list.splits)

lemma for_each_loop_edges:
  "for_each ss loop_edge_step es = Inr es' \<Longrightarrow>
     \<exists>L. es' = es @ L \<and> map e_from L = ss \<and> map e_to L = ss"
proof (induction ss arbitrary: es)
  case Nil
  then show ?case by simp
next
  case (Cons s ss)
  show ?case
  proof (cases "loop_edge_step s es")
    case (Inl er)
    with Cons.prems show ?thesis by simp
  next
    case (Inr es1)
    with Cons.prems have r: "for_each ss loop_edge_step es1 = Inr es'" by simp
    from loop_edge_step_Inr [OF Inr] obtain l p where es1: "es1 = es @ [Edge s s l 0 p]"
      by blast
    from Cons.IH [OF r] obtain L where L: "es' = es1 @ L" "map e_from L = ss" "map e_to L = ss"
      by blast
    show ?thesis
      by (rule exI [of _ "Edge s s l 0 p # L"]) (simp add: L es1)
  qed
qed

lemma fold_dup_indices:
  assumes "\<forall>k\<in>set ks. k < length es"
  shows "fold (\<lambda>k es'. es' @ [g (es' ! k)]) ks (es @ acc) = es @ acc @ map (\<lambda>k. g (es ! k)) ks"
  using assms
proof (induction ks arbitrary: acc)
  case Nil
  show ?case by simp
next
  case (Cons k ks)
  have "fold (\<lambda>k es'. es' @ [g (es' ! k)]) ks (es @ (acc @ [g (es ! k)]))
      = es @ (acc @ [g (es ! k)]) @ map (\<lambda>k. g (es ! k)) ks"
    using Cons.prems by (intro Cons.IH) simp
  then show ?case using Cons.prems by (simp add: nth_append)
qed

lemma final_state_step_eq:
  "final_state_step n f es = es @ map (final_state_edge (n - 1)) (filter (\<lambda>e. e_to e = f) es)"
proof -
  let ?ks = "indices_where (\<lambda>e. e_to e = f) es"
  have "fold (\<lambda>k es'. es' @ [final_state_edge (n - 1) (es' ! k)]) ?ks (es @ [])
      = es @ [] @ map (\<lambda>k. final_state_edge (n - 1) (es ! k)) ?ks"
    by (rule fold_dup_indices) (simp add: indices_where_bound)
  then have a: "final_state_step n f es = es @ map (\<lambda>k. final_state_edge (n - 1) (es ! k)) ?ks"
    unfolding final_state_step_def by simp
  have "map (\<lambda>k. final_state_edge (n - 1) (es ! k)) ?ks = map (final_state_edge (n - 1)) (map ((!) es) ?ks)"
    by (simp add: comp_def)
  also have "\<dots> = map (final_state_edge (n - 1)) (filter (\<lambda>e. e_to e = f) es)"
    by (simp only: map_nth_indices_where)
  finally show ?thesis using a by simp
qed

lemma fold_final_state_step:
  assumes "\<forall>f\<in>set fs. f \<noteq> n - 1" "\<forall>e\<in>set D. e_to e = n - 1"
  shows "fold (final_state_step n) fs (es @ D)
       = es @ D @ concat (map (\<lambda>f. map (final_state_edge (n - 1)) (filter (\<lambda>e. e_to e = f) es)) fs)"
  using assms
proof (induction fs arbitrary: D)
  case Nil
  show ?case by simp
next
  case (Cons f fs)
  let ?N = "map (final_state_edge (n - 1)) (filter (\<lambda>e. e_to e = f) es)"
  have nf: "filter (\<lambda>e. e_to e = f) D = []"
    using Cons.prems by (auto simp add: filter_empty_conv)
  have step: "final_state_step n f (es @ D) = es @ (D @ ?N)"
    by (simp add: final_state_step_eq nf)
  have "fold (final_state_step n) fs (es @ (D @ ?N))
      = es @ (D @ ?N) @ concat (map (\<lambda>f. map (final_state_edge (n - 1)) (filter (\<lambda>e. e_to e = f) es)) fs)"
    using Cons.prems by (intro Cons.IH) (auto simp add: final_state_edge_def)
  then show ?case by (simp add: step)
qed

section \<open>Properties of repetition folding\<close>

lemma rep_scan_snoc:
  "rep_scan r nl (xs @ [x]) = rep_step r nl x (rep_scan r nl xs)"
  by (simp add: rep_scan_def)

lemma rep_count_nonneg: "0 \<le> rep_count (rep_scan r nl xs)"
proof (induction xs rule: rev_induct)
  case Nil
  show ?case by (simp add: rep_scan_def rep_init_def)
next
  case (snoc x xs)
  then show ?case by (simp add: rep_scan_snoc rep_step_def Let_def)
qed

lemma index_old_snoc: "index_old (rep_scan r nl (xs @ [x])) = Some x"
  by (simp add: rep_scan_snoc rep_step_def Let_def)

lemma rep_count_after_repeat:
  assumes "0 < r"
  shows "1 \<le> rep_count (rep_scan r nl (xs @ [a, a]))"
proof -
  let ?st = "rep_scan r nl (xs @ [a])"
  have old: "index_old ?st = Some a" by (rule index_old_snoc)
  have nn: "0 \<le> rep_count ?st" by (rule rep_count_nonneg)
  have "rep_scan r nl (xs @ [a, a]) = rep_step r nl a ?st"
    using rep_scan_snoc [of r nl "xs @ [a]" a] by simp
  then show ?thesis using old nn assms by (simp add: rep_step_def Let_def)
qed

lemma reps_after_other:
  assumes "index_old st = Some a" "b \<noteq> a" "rep_count st \<noteq> 0"
  shows "reps (rep_step r nl b st) = reps st @ [LInt (nl + rep_count st), b]"
  using assms by (auto simp add: rep_step_def Let_def)

text \<open>
  Claim C8. With \<^verbatim>\<open>asg_repetition = 0\<close> repetition folding returns the label sequence it
  was given: the folded sequence is the input, so no repetition label is introduced.
\<close>

theorem asg_repetition_zero_identity:
  "check_for_repetitions_for_asg 0 num_labels lem = lem"
  by (simp add: check_for_repetitions_for_asg_def)

text \<open>
  Claim C10. With \<^verbatim>\<open>asg_repetition > 0\<close>, when the input ends with a repeat of its last
  label, the scan finishes with a nonzero repetition counter and the result is the list
  \<open>reps\<close> as it stands: the pending count is not emitted. The repetition label for it
  would be emitted only if a different label followed. In particular \<open>[a, a]\<close> folds to
  \<open>[a]\<close> and not to \<open>[a, num_labels + 1]\<close>.
\<close>

theorem asg_pending_count_unflushed:
  assumes "0 < asg_repetition" and "lem = xs @ [a, a]"
  shows "1 \<le> rep_count (rep_scan asg_repetition num_labels lem)
       \<and> check_for_repetitions_for_asg asg_repetition num_labels lem
           = reps (rep_scan asg_repetition num_labels lem)
       \<and> (\<forall>b. b \<noteq> a \<longrightarrow>
            check_for_repetitions_for_asg asg_repetition num_labels (lem @ [b])
              = check_for_repetitions_for_asg asg_repetition num_labels lem
                  @ [LInt (num_labels + rep_count (rep_scan asg_repetition num_labels lem)), b])
       \<and> check_for_repetitions_for_asg asg_repetition num_labels [a, a] = [a]"
proof -
  let ?st = "rep_scan asg_repetition num_labels lem"
  have pos: "1 \<le> rep_count ?st"
    using rep_count_after_repeat [OF assms(1)] assms(2) by simp
  have old: "index_old ?st = Some a"
    using index_old_snoc [of asg_repetition num_labels "xs @ [a]" a] assms(2) by simp
  have res: "check_for_repetitions_for_asg asg_repetition num_labels lem = reps ?st"
    using assms(1) by (simp add: check_for_repetitions_for_asg_def)
  have nxt: "check_for_repetitions_for_asg asg_repetition num_labels (lem @ [b])
      = check_for_repetitions_for_asg asg_repetition num_labels lem
          @ [LInt (num_labels + rep_count ?st), b]" if "b \<noteq> a" for b
  proof -
    have "reps (rep_step asg_repetition num_labels b ?st)
        = reps ?st @ [LInt (num_labels + rep_count ?st), b]"
      using old that pos by (intro reps_after_other) auto
    then show ?thesis
      using assms(1) by (simp add: check_for_repetitions_for_asg_def rep_scan_snoc)
  qed
  have two: "check_for_repetitions_for_asg asg_repetition num_labels [a, a] = [a]"
    using assms(1)
    by (simp add: check_for_repetitions_for_asg_def rep_scan_def rep_step_def rep_init_def Let_def)
  show ?thesis using pos res nxt two by blast
qed

theorem asg_pending_count_unflushed_witness:
  "(0::int) < 2
   \<and> check_for_repetitions_for_asg 2 27 [LInt 0, LInt 0] = [LInt 0]
   \<and> rep_count (rep_scan 2 27 [LInt 0, LInt 0]) = 1
   \<and> check_for_repetitions_for_asg 2 27 [LInt 0, LInt 0, LInt 1] = [LInt 0, LInt 28, LInt 1]"
  using asg_pending_count_unflushed [of 2 "[LInt 0, LInt 0]" "[]" "LInt 0" 27]
  by (simp add: check_for_repetitions_for_asg_def rep_scan_def rep_step_def rep_init_def Let_def)

section \<open>Properties of final-state merging\<close>

lemma filter_mset_disjoint_or:
  assumes "\<And>x. \<not> (P x \<and> Q x)"
  shows "filter_mset (\<lambda>x. P x \<or> Q x) M = filter_mset P M + filter_mset Q M"
  using assms by (induction M) auto

lemma mset_concat_final_edges:
  assumes "distinct fs"
  shows "mset (concat (map (\<lambda>f. map g (filter (\<lambda>e. e_to e = f) es)) fs))
       = image_mset g (filter_mset (\<lambda>e. e_to e \<in> set fs) (mset es))"
  using assms
proof (induction fs)
  case Nil
  show ?case by simp
next
  case (Cons f fs)
  have disj: "\<And>e. \<not> (e_to e = f \<and> e_to e \<in> set fs)"
    using Cons.prems by auto
  have "filter_mset (\<lambda>e. e_to e \<in> set (f # fs)) (mset es)
      = filter_mset (\<lambda>e. e_to e = f \<or> e_to e \<in> set fs) (mset es)"
    by simp
  also have "\<dots> = filter_mset (\<lambda>e. e_to e = f) (mset es)
                 + filter_mset (\<lambda>e. e_to e \<in> set fs) (mset es)"
    using disj by (rule filter_mset_disjoint_or)
  finally have split: "filter_mset (\<lambda>e. e_to e \<in> set (f # fs)) (mset es)
      = filter_mset (\<lambda>e. e_to e = f) (mset es)
        + filter_mset (\<lambda>e. e_to e \<in> set fs) (mset es)" .
  have ih: "mset (concat (map (\<lambda>f. map g (filter (\<lambda>e. e_to e = f) es)) fs))
       = image_mset g (filter_mset (\<lambda>e. e_to e \<in> set fs) (mset es))"
    using Cons.prems by (intro Cons.IH) simp
  show ?case
    unfolding split by (simp add: ih)
qed

lemma make_single_final_state_edges:
  assumes "\<forall>f\<in>set (final_states self). f \<noteq> num_states self"
    and "\<not> (length (final_states self) = 1 \<and> final_states self ! 0 = num_states self - 1)"
  shows "edges (make_single_final_state self)
       = edges self @ concat (map (\<lambda>f. map (final_state_edge (num_states self))
                                   (filter (\<lambda>e. e_to e = f) (edges self))) (final_states self))"
proof -
  have "fold (final_state_step (num_states self + 1)) (final_states self) (edges self @ [])
      = edges self @ [] @ concat (map (\<lambda>f. map (final_state_edge (num_states self + 1 - 1))
                                   (filter (\<lambda>e. e_to e = f) (edges self))) (final_states self))"
    using assms(1) by (intro fold_final_state_step) auto
  moreover have "make_single_final_state self =
      self\<lparr>num_states := num_states self + 1,
           edges := fold (final_state_step (num_states self + 1)) (final_states self)
                      (edges self)\<rparr>"
    unfolding make_single_final_state_def using assms(2) by (rule if_not_P)
  ultimately show ?thesis by simp
qed

text \<open>
  Claim C3. Final-state merging, for a final-state set (a list without repetition) whose
  members are states of the graph, that is, lie below \<open>num_states\<close>. When the set has
  exactly one element and it equals \<open>num_states - 1\<close> the graph is unchanged.
  Otherwise \<open>num_states\<close> grows by one, the edges there were stay in place at the
  front of the edge list, and the edges appended are, as a multiset, one copy per edge
  that ends in a final state: same start node and label, end node the new last state.
\<close>

theorem make_single_final_state_contract:
  assumes "distinct (final_states self)"
    and "\<forall>f\<in>set (final_states self). f < num_states self"
  shows "(if length (final_states self) = 1 \<and> hd (final_states self) = num_states self - 1
          then make_single_final_state self = self
          else num_states (make_single_final_state self) = num_states self + 1
             \<and> take (length (edges self)) (edges (make_single_final_state self)) = edges self
             \<and> mset (drop (length (edges self)) (edges (make_single_final_state self)))
                 = image_mset (final_state_edge (num_states self))
                     (filter_mset (\<lambda>e. e_to e \<in> set (final_states self)) (mset (edges self)))
             \<and> final_states (make_single_final_state self) = final_states self)"
proof (cases "length (final_states self) = 1 \<and> hd (final_states self) = num_states self - 1")
  case True
  then have "final_states self ! 0 = num_states self - 1"
    by (cases "final_states self") auto
  with True have "make_single_final_state self = self"
    by (simp add: make_single_final_state_def)
  then show ?thesis unfolding if_P [OF True] .
next
  case False
  then have nn: "\<not> (length (final_states self) = 1 \<and> final_states self ! 0 = num_states self - 1)"
    by (cases "final_states self") auto
  have ne: "\<forall>f\<in>set (final_states self). f \<noteq> num_states self"
    using assms(2) by auto
  have ed: "edges (make_single_final_state self)
       = edges self @ concat (map (\<lambda>f. map (final_state_edge (num_states self))
                                   (filter (\<lambda>e. e_to e = f) (edges self))) (final_states self))"
    using ne nn by (rule make_single_final_state_edges)
  have unf: "make_single_final_state self =
      self\<lparr>num_states := num_states self + 1,
           edges := fold (final_state_step (num_states self + 1)) (final_states self)
                      (edges self)\<rparr>"
    unfolding make_single_final_state_def using nn by (rule if_not_P)
  have ns: "num_states (make_single_final_state self) = num_states self + 1"
    by (simp add: unf)
  have fs: "final_states (make_single_final_state self) = final_states self"
    by (simp add: unf)
  have ms: "mset (drop (length (edges self)) (edges (make_single_final_state self)))
                 = image_mset (final_state_edge (num_states self))
                     (filter_mset (\<lambda>e. e_to e \<in> set (final_states self)) (mset (edges self)))"
    unfolding ed using mset_concat_final_edges [OF assms(1)] by simp
  have tk: "take (length (edges self)) (edges (make_single_final_state self)) = edges self"
    unfolding ed by simp
  show ?thesis unfolding if_not_P [OF False] using ns tk ms fs by (intro conjI)
qed

theorem make_single_final_state_contract_witness:
  "distinct [3, 5 :: int] \<and> list_all (\<lambda>f. f < 7) [3, 5 :: int]
   \<and> make_single_final_state
        \<lparr>num_states = 7,
         edges = [Edge 2 3 (LStr ''a'') 1 NoField, Edge 3 4 (LStr ''b'') 1 NoField,
                  Edge 4 5 (LStr ''c'') 1 NoField, Edge 5 6 (LStr ''d'') 1 NoField],
         final_states = [3, 5], lemma_seq = []\<rparr>
      = \<lparr>num_states = 8,
         edges = [Edge 2 3 (LStr ''a'') 1 NoField, Edge 3 4 (LStr ''b'') 1 NoField,
                  Edge 4 5 (LStr ''c'') 1 NoField, Edge 5 6 (LStr ''d'') 1 NoField,
                  Edge 2 7 (LStr ''a'') 1 NoField, Edge 4 7 (LStr ''c'') 1 NoField],
         final_states = [3, 5], lemma_seq = []\<rparr>"
  using make_single_final_state_contract
    [of "\<lparr>num_states = 7,
         edges = [Edge 2 3 (LStr ''a'') 1 NoField, Edge 3 4 (LStr ''b'') 1 NoField,
                  Edge 4 5 (LStr ''c'') 1 NoField, Edge 5 6 (LStr ''d'') 1 NoField],
         final_states = [3, 5], lemma_seq = []\<rparr>"]
  by code_simp

section \<open>Properties of the lemma acceptor\<close>

lemma fst_lemma_word_step:
  "fst (lemma_word_step lem k st) = fst st + (if k = 0 then 4 else 2)"
  by (simp add: lemma_word_step_def lemma_epsil_step_def Let_def)

lemma fst_fold_lemma_word_step:
  "fst (fold (lemma_word_step lem) [0..<n] (0, [])) = (if n = 0 then 0 else 2 * int n + 2)"
proof (induction n)
  case 0
  show ?case by simp
next
  case (Suc n)
  then show ?case by (simp add: fst_lemma_word_step)
qed

lemma lemma_acceptor_num_states:
  "num_states (lemma_acceptor_for_hmm_fsa lemma_orig self)
     = (if lemma_words lemma_orig = [] then 0 else 2 * int (length (lemma_words lemma_orig)) + 2)"
  by (simp add: lemma_acceptor_for_hmm_fsa_def Let_def fst_fold_lemma_word_step)

text \<open>
  Claim C5, as stated, fails: for the one word \<open>cat\<close> the lemma acceptor counts four
  states, not \<open>2 * len(words) + 1 = 3\<close>. The states are 0, 1, 2 and 3.
\<close>

theorem lemma_acceptor_cat_counterexample:
  "num_states (lemma_acceptor_for_hmm_fsa (LemmaList [''cat''])
       \<lparr>num_states = 0, edges = [], final_states = [], lemma_seq = []\<rparr>) = 4
   \<and> (4::int) \<noteq> 2 * int (length [''cat'']) + 1"
  by code_simp

text \<open>
  Claim C5, amended. On the word sequence \<open>[cat]\<close> the lemma acceptor produces exactly
  one word edge, from state 1 to state 2, bracketed by a silence and an epsilon edge in
  parallel from 0 to 1 and from 2 to 3, and \<open>num_states = 2 * len(words) + 2 = 4\<close>.
  (The formula holds for every non-empty word sequence: \<open>lemma_acceptor_num_states\<close>.)
\<close>

theorem lemma_acceptor_cat:
  "lemma_acceptor_for_hmm_fsa (LemmaList [''cat''])
       \<lparr>num_states = 0, edges = [], final_states = [], lemma_seq = []\<rparr>
   = \<lparr>num_states = 2 * int (length [''cat'']) + 2,
      edges = [Edge 1 2 (LStr ''cat'') 0 NoField,
               Edge 0 1 SIL 0 NoField, Edge 2 3 SIL 0 NoField,
               Edge 0 1 EPS 0 NoField, Edge 2 3 EPS 0 NoField],
      final_states = [], lemma_seq = [LStr ''cat'']\<rparr>
   \<and> 2 * int (length [''cat'']) + 2 = 4"
  by code_simp

section \<open>Properties of node renumbering\<close>










text \<open>
  The lists of the callers stay such lists under an exchange, and their first edge is
  never inverted.
\<close>

lemma renumbering_input_iff:
  "renumbering_input es \<longleftrightarrow>
     (es \<noteq> [] \<longrightarrow> e_from (es ! 0) = 0) \<and> (\<forall>e\<in>set es. 0 < e_to e \<and> e_from e \<noteq> e_to e)"
  by (cases es) (auto simp add: renumbering_input_def list_all_iff)



















text \<open>
  The list that the allophone state acceptor passes to \<^verbatim>\<open>_sort_node_num\<close> is such a list,
  when the graph it starts from is one, begins with a silence or epsilon edge and has all
  its nodes below \<open>num_states\<close>.
\<close>

lemma allo_state_step_ok:
  assumes "allo_state_step ans e s st = Inr st'"
    and "0 < e_to e" "e_from e < fst st" "e_to e < fst st"
  shows "\<exists>d. snd st' = snd st @ [d] \<and> fst st \<le> fst st' \<and> 0 < e_to d \<and> e_from d \<noteq> e_to d"
proof (cases "label_items (e_label e)")
  case (Inl er)
  with assms(1) show ?thesis by (simp add: allo_state_step_def)
next
  case (Inr items)
  show ?thesis
  proof (cases "e_pos e = NoField")
    case True
    with assms(1) Inr show ?thesis by (simp add: allo_state_step_def)
  next
    case False
    with assms Inr show ?thesis
      by (cases "s = 0"; cases "s = ans - 1") (auto simp add: allo_state_step_def Let_def)
  qed
qed

lemma allo_states_ok:
  assumes "for_each ss (allo_state_step ans e) st = Inr st'"
    and "0 < e_to e" "e_from e < fst st" "e_to e < fst st"
  shows "\<exists>new. snd st' = snd st @ new \<and> fst st \<le> fst st'
           \<and> (\<forall>d\<in>set new. 0 < e_to d \<and> e_from d \<noteq> e_to d)"
  using assms
proof (induction ss arbitrary: st)
  case Nil
  then show ?case by simp
next
  case (Cons s ss)
  show ?case
  proof (cases "allo_state_step ans e s st")
    case (Inl er)
    with Cons.prems(1) show ?thesis by simp
  next
    case (Inr st1)
    with Cons.prems(1) have r: "for_each ss (allo_state_step ans e) st1 = Inr st'" by simp
    from allo_state_step_ok [OF Inr Cons.prems(2,3,4)] obtain d where
      d: "snd st1 = snd st @ [d]" "fst st \<le> fst st1" "0 < e_to d" "e_from d \<noteq> e_to d"
      by blast
    have "e_from e < fst st1" "e_to e < fst st1" using d(2) Cons.prems(3,4) by simp_all
    from Cons.IH [OF r Cons.prems(2) this] obtain new where
      new: "snd st' = snd st1 @ new" "fst st1 \<le> fst st'"
        "\<forall>d\<in>set new. 0 < e_to d \<and> e_from d \<noteq> e_to d" by blast
    show ?thesis
      by (rule exI [of _ "d # new"]) (use d new in simp)
  qed
qed

lemma allo_edge_step_ok:
  assumes "allo_edge_step ans e st = Inr st'"
    and "0 < e_to e" "e_from e \<noteq> e_to e" "e_from e < fst st" "e_to e < fst st"
  shows "\<exists>new. snd st' = snd st @ new \<and> fst st \<le> fst st'
           \<and> (\<forall>d\<in>set new. 0 < e_to d \<and> e_from d \<noteq> e_to d)"
proof (cases "e_label e = SIL \<or> e_label e = EPS")
  case True
  with assms(1) have "snd st' = snd st @ [e]" "fst st' = fst st"
    by (auto simp add: allo_edge_step_def)
  with assms(2,3) show ?thesis by simp
next
  case False
  show ?thesis
  proof (cases "ans > 1")
    case True
    with False assms(1) have
      "for_each (map int [0..<nat ans]) (allo_state_step ans e) st = Inr st'"
      by (simp add: allo_edge_step_def)
    from allo_states_ok [OF this assms(2,4,5)] show ?thesis .
  next
    case nb: False
    with False assms(1) have "st' = st" by (simp add: allo_edge_step_def)
    then show ?thesis by simp
  qed
qed

lemma allo_edges_ok:
  assumes "for_each es (allo_edge_step ans) st = Inr st'"
    and "\<forall>e\<in>set es. 0 < e_to e \<and> e_from e \<noteq> e_to e \<and> e_from e < fst st \<and> e_to e < fst st"
  shows "\<exists>new. snd st' = snd st @ new \<and> (\<forall>d\<in>set new. 0 < e_to d \<and> e_from d \<noteq> e_to d)"
  using assms
proof (induction es arbitrary: st)
  case Nil
  then show ?case by simp
next
  case (Cons e es)
  show ?case
  proof (cases "allo_edge_step ans e st")
    case (Inl er)
    with Cons.prems(1) show ?thesis by simp
  next
    case (Inr st1)
    with Cons.prems(1) have r: "for_each es (allo_edge_step ans) st1 = Inr st'" by simp
    from Cons.prems(2) have e: "0 < e_to e" "e_from e \<noteq> e_to e" "e_from e < fst st"
      "e_to e < fst st" by simp_all
    from allo_edge_step_ok [OF Inr e] obtain new1 where
      n1: "snd st1 = snd st @ new1" "fst st \<le> fst st1"
        "\<forall>d\<in>set new1. 0 < e_to d \<and> e_from d \<noteq> e_to d" by blast
    have "\<forall>e\<in>set es. 0 < e_to e \<and> e_from e \<noteq> e_to e \<and> e_from e < fst st1 \<and> e_to e < fst st1"
      using Cons.prems(2) n1(2) by auto
    from Cons.IH [OF r this] obtain new2 where
      n2: "snd st' = snd st1 @ new2" "\<forall>d\<in>set new2. 0 < e_to d \<and> e_from d \<noteq> e_to d"
      by blast
    show ?thesis
      by (rule exI [of _ "new1 @ new2"]) (use n1 n2 in auto)
  qed
qed

lemma allophone_sort_input:
  assumes inp: "renumbering_input (edges self)"
    and first: "edges self = [] \<or> e_label (hd (edges self)) = SIL \<or> e_label (hd (edges self)) = EPS"
    and bound: "\<forall>e\<in>set (edges self). e_from e < num_states self \<and> e_to e < num_states self"
    and run: "for_each (edges self) (allo_edge_step allo_num_states) (num_states self, []) = Inr st"
  shows "renumbering_input (snd st)"
proof (cases "edges self")
  case Nil
  with run have "snd st = []" by auto
  then show ?thesis by (simp add: renumbering_input_def)
next
  case (Cons e1 rest)
  with first have l1: "e_label e1 = SIL \<or> e_label e1 = EPS" by simp
  from inp Cons have f1: "e_from e1 = 0" by (simp add: renumbering_input_def)
  from l1 have s1: "allo_edge_step allo_num_states e1 (num_states self, []) = Inr (num_states self, [e1])"
    by (auto simp add: allo_edge_step_def)
  with run Cons have r: "for_each rest (allo_edge_step allo_num_states) (num_states self, [e1]) = Inr st"
    by simp
  have ok: "\<forall>e\<in>set (edges self). 0 < e_to e \<and> e_from e \<noteq> e_to e"
    using inp unfolding renumbering_input_iff by blast
  have "\<forall>e\<in>set rest. 0 < e_to e \<and> e_from e \<noteq> e_to e
      \<and> e_from e < fst (num_states self, [e1]) \<and> e_to e < fst (num_states self, [e1])"
    using ok bound Cons by simp
  from allo_edges_ok [OF r this] obtain new where
    new: "snd st = [e1] @ new" "\<forall>d\<in>set new. 0 < e_to d \<and> e_from d \<noteq> e_to d" by auto
  have "0 < e_to e1 \<and> e_from e1 \<noteq> e_to e1" using ok Cons by simp
  with new f1 show ?thesis
    by (simp add: renumbering_input_def list_all_iff)
qed

section \<open>Properties of the allophone state acceptor\<close>

text \<open>
  Claim C4. The graph is the one of a word with the single phoneme \<open>a\<close> after the
  triphone acceptor. With two allophone states the two sub-edges of the word edge are
  \<open>1 \<rightarrow> 4\<close> and \<open>2 \<rightarrow> 3\<close>: they do not meet, and two states are added instead of one.
  With one allophone state the word edge is dropped.
\<close>

theorem allophone_state_acceptor_two_states:
  "allophone_state_acceptor_for_hmm_fsa 2
     \<lparr>num_states = 4,
      edges = [Edge 0 1 SIL 0 (PStr ''''), Edge 0 1 EPS 0 (PStr ''''),
               Edge 1 2 (LList [LStr '''', LStr ''a'', LStr '''']) 0 (PStr ''if''),
               Edge 2 3 SIL 0 (PStr ''''), Edge 2 3 EPS 0 (PStr '''')],
      final_states = [], lemma_seq = [LStr ''a'']\<rparr>
   = Some (Inr \<lparr>num_states = 6,
                 edges = [Edge 0 1 SIL 0 (PStr ''''), Edge 0 1 EPS 0 (PStr ''''),
                          Edge 1 4 (LList [LStr '''', LStr ''a'', LStr '''', LInt 0]) 0 (PStr ''if''),
                          Edge 2 3 (LList [LStr '''', LStr ''a'', LStr '''', LInt 1]) 0 (PStr ''if''),
                          Edge 3 5 SIL 0 (PStr ''''), Edge 3 5 EPS 0 (PStr '''')],
                 final_states = [], lemma_seq = [LStr ''a'']\<rparr>)
   \<and> allophone_state_acceptor_for_hmm_fsa 1
     \<lparr>num_states = 4,
      edges = [Edge 0 1 SIL 0 (PStr ''''), Edge 0 1 EPS 0 (PStr ''''),
               Edge 1 2 (LList [LStr '''', LStr ''a'', LStr '''']) 0 (PStr ''if''),
               Edge 2 3 SIL 0 (PStr ''''), Edge 2 3 EPS 0 (PStr '''')],
      final_states = [], lemma_seq = [LStr ''a'']\<rparr>
   = Some (Inr \<lparr>num_states = 4,
                 edges = [Edge 0 1 SIL 0 (PStr ''''), Edge 0 1 EPS 0 (PStr ''''),
                          Edge 2 3 SIL 0 (PStr ''''), Edge 2 3 EPS 0 (PStr '''')],
                 final_states = [], lemma_seq = [LStr ''a'']\<rparr>)"
  by code_simp

section \<open>Properties of the CTC stages\<close>

lemma fold_ctc_label_step:
  "fold (ctc_label_step lem) ks es
     = es @ map (\<lambda>i. Edge (2 * int i) (2 * int i + 2) (lem ! i) 1 NoField)
              (filter (\<lambda>i. lem ! i \<noteq> py_item lem (int i - 1)) ks)"
  by (induction ks arbitrary: es) (simp_all add: ctc_label_step_def Let_def)

lemma snd_fold_ctc_blank_step:
  "snd (fold (ctc_blank_step lem) ks st)
     = snd st @ concat (map (\<lambda>i. [Edge (2 * int i) (2 * int i + 1) label_blank 1 NoField,
                                   Edge (2 * int i + 1) (2 * int i + 2) (lem ! i) 1 NoField]) ks)"
  by (induction ks arbitrary: st) (simp_all add: ctc_blank_step_def Let_def)

lemma fst_fold_ctc_blank_step:
  "fst (fold (ctc_blank_step lem) ks st) = (if ks = [] then fst st else 2 * int (last ks) + 1)"
  by (induction ks arbitrary: st) (simp_all add: ctc_blank_step_def Let_def)

lemma edges_create_states_ctc:
  "edges (create_states_from_label_seq_for_ctc (ctc_alloc lem))
     = map (\<lambda>i. Edge (2 * int i) (2 * int i + 2) (lem ! i) 1 NoField)
         (filter (\<lambda>i. lem ! i \<noteq> py_item lem (int i - 1)) [0..<length lem])"
  by (simp add: create_states_from_label_seq_for_ctc_def ctc_alloc_def fold_ctc_label_step)

lemma py_item_last: "xs \<noteq> [] \<Longrightarrow> py_item xs (- 1) = last xs"
  by (simp add: py_item_def last_conv_nth nat_diff_distrib')

lemma py_item_prev: "0 < i \<Longrightarrow> py_item xs (int i - 1) = xs ! (i - 1)"
  by (simp add: py_item_def nat_diff_distrib')

lemma upt_from_zero: "0 < n \<Longrightarrow> [0..<n] = 0 # [Suc 0..<n]"
  by (simp add: upt_conv_Cons)

lemma filter_from_zero_later:
  "filter (\<lambda>e. e_from e = 0)
     (map (\<lambda>i. Edge (2 * int i) (2 * int i + 2) (lem ! i) 1 NoField) (filter P [Suc 0..<n])) = []"
  by (simp add: filter_empty_conv)

text \<open>
  Claim C9. The skip-edge stage compares the label at position 0 with the label at index
  \<open>-1\<close>, the last one. The edges it emits that start in state 0 are: none, when the first
  label equals the last (so for every sequence of length 1) or the sequence is empty; and
  otherwise the one edge \<open>(0, 2, first label)\<close>.
\<close>

theorem ctc_skip_edge_position_zero:
  "filter (\<lambda>e. e_from e = 0) (edges (create_states_from_label_seq_for_ctc (ctc_alloc lem)))
     = (if lem = [] \<or> hd lem = last lem then [] else [Edge 0 2 (hd lem) 1 NoField])"
proof (cases "lem = []")
  case True
  then show ?thesis by (simp add: edges_create_states_ctc)
next
  case False
  then have n: "0 < length lem" by simp
  have c0: "(lem ! 0 \<noteq> py_item lem (int 0 - 1)) = (hd lem \<noteq> last lem)"
    using False by (simp add: py_item_last hd_conv_nth)
  show ?thesis
    unfolding edges_create_states_ctc upt_from_zero [OF n]
    using False c0 by (simp add: filter_from_zero_later hd_conv_nth)
qed

lemma int_length_pred: "xs \<noteq> [] \<Longrightarrow> int (length xs - Suc 0) = int (length xs) - 1"
  by (cases xs) simp_all

lemma ctc_before_last_state_fields:
  "num_states (ctc_before_last_state lem) = 2 * (int (length lem) + 1) - 1"
  "lemma_seq (ctc_before_last_state lem) = lem"
  "final_states (ctc_before_last_state lem) = [if lem = [] then 1 else 2 * int (length lem)]"
  "edges (ctc_before_last_state lem)
     = map (\<lambda>i. Edge (2 * int i) (2 * int i + 2) (lem ! i) 1 NoField)
         (filter (\<lambda>i. lem ! i \<noteq> py_item lem (int i - 1)) [0..<length lem])
       @ concat (map (\<lambda>i. [Edge (2 * int i) (2 * int i + 1) label_blank 1 NoField,
                              Edge (2 * int i + 1) (2 * int i + 2) (lem ! i) 1 NoField])
                  [0..<length lem])"
  by (simp_all add: ctc_before_last_state_def adds_blank_states_for_ctc_def Let_def
        create_states_from_label_seq_for_ctc_def ctc_alloc_def fold_ctc_label_step
        snd_fold_ctc_blank_step fst_fold_ctc_blank_step int_length_pred)

lemma length_concat_pairs: "length (concat (map (\<lambda>i. [f i, g i]) ks)) = 2 * length ks"
  by (induction ks) simp_all

lemma filter_adjacent_distinct:
  assumes "distinct_adj lem"
  shows "filter (\<lambda>i. lem ! i \<noteq> py_item lem (int i - 1)) [Suc 0..<length lem]
       = [Suc 0..<length lem]"
proof -
  have "lem ! i \<noteq> py_item lem (int i - 1)" if "i \<in> set [Suc 0..<length lem]" for i
  proof -
    from that have i: "0 < i" "i < length lem" by simp_all
    then have "Suc (i - 1) < length lem" by simp
    from distinct_adj_nth [OF assms this] i show ?thesis
      by (simp add: py_item_prev)
  qed
  then have "\<forall>i\<in>set [Suc 0..<length lem]. lem ! i \<noteq> py_item lem (int i - 1)"
    by blast
  then show ?thesis by (rule filter_True)
qed

lemma length_skip_edges:
  assumes "distinct_adj lem" "lem \<noteq> []"
  shows "length (filter (\<lambda>i. lem ! i \<noteq> py_item lem (int i - 1)) [0..<length lem])
       = (if hd lem = last lem then length lem - 1 else length lem)"
proof -
  from assms(2) have n: "0 < length lem" by simp
  have c0: "(lem ! 0 \<noteq> py_item lem (int 0 - 1)) = (hd lem \<noteq> last lem)"
    using assms(2) by (simp add: py_item_last hd_conv_nth)
  show ?thesis
    unfolding upt_from_zero [OF n]
    using c0 n by (simp add: filter_adjacent_distinct [OF assms(1)])
qed

text \<open>
  Claim C6, as stated, fails: for the labels \<open>a, b\<close> the graph has six edges before the
  last states are added, and \<open>2 * (n + 1) - 1 = 5\<close>.
\<close>

theorem ctc_counts_before_extension_counterexample:
  "int (length (edges (ctc_before_last_state [LStr ''a'', LStr ''b'']))) = 6
   \<and> (6::int) \<noteq> 2 * (int (length [LStr ''a'', LStr ''b'']) + 1) - 1
   \<and> distinct_adj [LStr ''a'', LStr ''b'']"
  by code_simp

text \<open>
  Claim C6, amended. For a label sequence of length \<open>n\<close> without adjacent repeats,
  \<open>num_states\<close> is \<open>2 * (n + 1) - 1\<close> at allocation and still before the last states are
  added; the number of edges then is \<open>3 * n\<close> when the first label differs from the last
  and \<open>3 * n - 1\<close> when they are equal (\<open>0\<close> for the empty sequence); and adding the last
  states, which fails on the empty sequence only, increases \<open>num_states\<close> by exactly 3.
\<close>

theorem ctc_counts_before_extension:
  assumes "distinct_adj lem"
  shows "num_states (ctc_alloc lem) = 2 * (int (length lem) + 1) - 1
     \<and> num_states (ctc_before_last_state lem) = 2 * (int (length lem) + 1) - 1
     \<and> int (length (edges (ctc_before_last_state lem)))
          = (if lem = [] then 0
             else if hd lem = last lem then 3 * int (length lem) - 1
             else 3 * int (length lem))
     \<and> (case adds_last_state_for_ctc (ctc_before_last_state lem) of
           Inl er \<Rightarrow> lem = []
         | Inr s \<Rightarrow> lem \<noteq> [] \<and> num_states s = num_states (ctc_before_last_state lem) + 3)"
proof -
  have a: "num_states (ctc_alloc lem) = 2 * (int (length lem) + 1) - 1"
    by (simp add: ctc_alloc_def)
  have b: "num_states (ctc_before_last_state lem) = 2 * (int (length lem) + 1) - 1"
    by (rule ctc_before_last_state_fields)
  have c: "int (length (edges (ctc_before_last_state lem)))
          = (if lem = [] then 0
             else if hd lem = last lem then 3 * int (length lem) - 1
             else 3 * int (length lem))"
  proof (cases "lem = []")
    case True
    then show ?thesis by (simp add: ctc_before_last_state_fields)
  next
    case False
    then have "0 < length lem" by simp
    then show ?thesis
      using False
      by (simp add: ctc_before_last_state_fields(4) length_concat_pairs
            length_skip_edges [OF assms False] int_length_pred del: upt_Suc)
  qed
  have d: "(case adds_last_state_for_ctc (ctc_before_last_state lem) of
           Inl er \<Rightarrow> lem = []
         | Inr s \<Rightarrow> lem \<noteq> [] \<and> num_states s = num_states (ctc_before_last_state lem) + 3)"
    by (simp add: adds_last_state_for_ctc_def Let_def ctc_before_last_state_fields)
  show ?thesis using a b c d by (intro conjI)
qed

theorem ctc_counts_before_extension_witness:
  "distinct_adj [LStr ''a'', LStr ''b'']
   \<and> num_states (ctc_before_last_state [LStr ''a'', LStr ''b'']) = 5
   \<and> length (edges (ctc_before_last_state [LStr ''a'', LStr ''b''])) = 6
   \<and> map_sum id num_states (adds_last_state_for_ctc (ctc_before_last_state [LStr ''a'', LStr ''b'']))
       = Inr 8"
  using ctc_counts_before_extension [of "[LStr ''a'', LStr ''b'']"]
  by code_simp

section \<open>The graphs of the ASG and the CTC builder\<close>

lemma no_outgoing_iff:
  "no_outgoing es s \<longleftrightarrow> (\<forall>e\<in>set es. e_from e = s \<longrightarrow> e_to e = s)"
  by (auto simp add: no_outgoing_def list_all_iff)

lemma loops_pointwise:
  assumes "map e_from L = ss" "map e_to L = ss"
  shows "\<forall>l\<in>set L. e_from l = e_to l \<and> e_to l \<in> set ss"
proof
  fix l assume l: "l \<in> set L"
  have "map e_from L = map e_to L" using assms by simp
  then have "e_from l = e_to l" using l by (simp only: map_eq_conv)
  moreover have "e_to l \<in> set (map e_to L)" using l by simp
  ultimately show "e_from l = e_to l \<and> e_to l \<in> set ss" using assms(2) by simp
qed

lemma loop_exists:
  assumes "map e_from L = ss" "map e_to L = ss" "s \<in> set ss"
  shows "\<exists>l\<in>set L. e_from l = s \<and> e_to l = s"
proof -
  from assms(2,3) have "s \<in> set (map e_to L)" by simp
  then obtain l where l: "l \<in> set L" "e_to l = s" by auto
  with loops_pointwise [OF assms(1,2)] have "e_from l = s" by auto
  with l show ?thesis by blast
qed

lemma adds_loop_edges_Inr:
  assumes "adds_loop_edges t self = Inr s'" "t \<noteq> HMM"
  shows "\<exists>L. s' = self\<lparr>edges := edges self @ L\<rparr>
           \<and> map e_from L = [1..num_states self - 1] \<and> map e_to L = [1..num_states self - 1]"
proof -
  from assms(2) have c: "(case t of HMM \<Rightarrow> num_states self - 1 | _ \<Rightarrow> num_states self) = num_states self"
    by (cases t) simp_all
  show ?thesis
  proof (cases "for_each [1..num_states self - 1] loop_edge_step (edges self)")
    case (Inl er)
    with assms(1) c show ?thesis by (simp add: adds_loop_edges_def Let_def)
  next
    case (Inr es)
    with assms(1) c have s': "s' = self\<lparr>edges := es\<rparr>"
      by (simp add: adds_loop_edges_def Let_def)
    from for_each_loop_edges [OF Inr] obtain L where
      "es = edges self @ L" "map e_from L = [1..num_states self - 1]"
      "map e_to L = [1..num_states self - 1]" by blast
    with s' show ?thesis by blast
  qed
qed

lemma merged_graph_ok:
  assumes E3: "\<forall>e\<in>set E3. e_from e < e_to e \<and> e_to e \<le> N - 1"
    and out: "\<forall>s. 0 \<le> s \<and> s < N \<and> s \<noteq> f1 \<and> s \<noteq> f2 \<longrightarrow> (\<exists>e\<in>set E3. e_from e = s)"
    and L: "map e_from L = [1..N - 1]" "map e_to L = [1..N - 1]"
    and f: "1 \<le> f1" "f1 < N" "1 \<le> f2" "f2 < N"
    and E5: "E5 = (E3 @ L) @ concat (map (\<lambda>f. map (final_state_edge N)
                      (filter (\<lambda>e. e_to e = f) (E3 @ L))) [f1, f2])"
  shows "(\<forall>e\<in>set E5. e_from e \<le> e_to e)
       \<and> (\<forall>s. 0 \<le> s \<and> s < N + 1 \<longrightarrow> (no_outgoing E5 s \<longleftrightarrow> s = N))"
proof -
  have Lp: "\<forall>l\<in>set L. e_from l = e_to l \<and> e_to l \<in> set [1..N - 1]"
    using L by (rule loops_pointwise)
  have E4: "\<forall>e\<in>set (E3 @ L). e_from e \<le> e_to e \<and> e_to e \<le> N - 1"
  proof
    fix e assume "e \<in> set (E3 @ L)"
    then consider "e \<in> set E3" | "e \<in> set L" by auto
    then show "e_from e \<le> e_to e \<and> e_to e \<le> N - 1"
    proof cases
      case 1
      with E3 show ?thesis by force
    next
      case 2
      with Lp show ?thesis by force
    qed
  qed
  have setE5: "set E5 = set (E3 @ L)
      \<union> final_state_edge N ` {e \<in> set (E3 @ L). e_to e = f1 \<or> e_to e = f2}"
    unfolding E5 by auto
  have bound: "e_from e \<le> e_to e \<and> e_from e \<le> N - 1" if "e \<in> set E5" for e
  proof -
    from that setE5 consider "e \<in> set (E3 @ L)"
      | e' where "e' \<in> set (E3 @ L)" "e = final_state_edge N e'" by auto
    then show ?thesis
    proof cases
      case 1
      with E4 show ?thesis by force
    next
      case 2
      with E4 have "e_from e' \<le> N - 1" by force
      with 2 show ?thesis by (simp add: final_state_edge_def)
    qed
  qed
  have mono: "\<forall>e\<in>set E5. e_from e \<le> e_to e"
    using bound by blast
  have last: "no_outgoing E5 N"
    unfolding no_outgoing_iff using bound by force
  have others: "\<not> no_outgoing E5 s" if s: "0 \<le> s" "s < N" for s
  proof (cases "s = f1 \<or> s = f2")
    case False
    with out s obtain e where e: "e \<in> set E3" "e_from e = s" by blast
    with E3 have "e_to e \<noteq> s" by force
    moreover from e have "e \<in> set E5" unfolding setE5 by simp
    ultimately show ?thesis unfolding no_outgoing_iff using e by blast
  next
    case True
    with f have "s \<in> set [1..N - 1]" by auto
    from loop_exists [OF L this] obtain l where l: "l \<in> set L" "e_from l = s" "e_to l = s"
      by blast
    with True have "final_state_edge N l \<in> set E5"
      unfolding setE5 by auto
    moreover have "e_from (final_state_edge N l) = s" "e_to (final_state_edge N l) \<noteq> s"
      using l s by (simp_all add: final_state_edge_def)
    ultimately show ?thesis unfolding no_outgoing_iff by blast
  qed
  have "\<forall>s. 0 \<le> s \<and> s < N + 1 \<longrightarrow> (no_outgoing E5 s \<longleftrightarrow> s = N)"
  proof (intro allI impI)
    fix s assume "0 \<le> s \<and> s < N + 1"
    then consider "s = N" | "0 \<le> s" "s < N" by force
    then show "no_outgoing E5 s \<longleftrightarrow> s = N"
    proof cases
      case 1
      with last show ?thesis by simp
    next
      case 2
      with others show ?thesis by force
    qed
  qed
  with mono show ?thesis by blast
qed


lemma ctc_last_state:
  assumes "lem \<noteq> []"
  shows "\<exists>s3. adds_last_state_for_ctc (ctc_before_last_state lem) = Inr s3
           \<and> num_states s3 = 2 * int (length lem) + 4
           \<and> final_states s3 = [2 * int (length lem), 2 * int (length lem) + 3]
           \<and> edges s3 = edges (ctc_before_last_state lem)
                @ [Edge (2 * int (length lem) - 2) (2 * int (length lem) + 1) label_blank 1 NoField,
                   Edge (2 * int (length lem) + 1) (2 * int (length lem) + 2) (last lem) 1 NoField,
                   Edge (2 * int (length lem) + 2) (2 * int (length lem) + 3) label_blank 1 NoField]"
  using assms
  by (simp add: adds_last_state_for_ctc_def Let_def ctc_before_last_state_fields(1,2,3)
        py_item_last)

lemma ctc_before_last_bounds:
  "\<forall>e\<in>set (edges (ctc_before_last_state lem)).
      e_from e < e_to e \<and> e_to e \<le> 2 * int (length lem)"
  unfolding ctc_before_last_state_fields(4) by auto

lemma ctc_before_last_outgoing:
  assumes "0 \<le> s" "s < 2 * int (length lem)"
  shows "\<exists>e\<in>set (edges (ctc_before_last_state lem)). e_from e = s"
proof -
  define i where "i = nat (s div 2)"
  have i: "i < length lem" using assms by (simp add: i_def)
  have i2: "int i = s div 2" using assms by (simp add: i_def)
  let ?b1 = "Edge (2 * int i) (2 * int i + 1) label_blank 1 NoField"
  let ?b2 = "Edge (2 * int i + 1) (2 * int i + 2) (lem ! i) 1 NoField"
  have mem: "?b1 \<in> set (edges (ctc_before_last_state lem))"
    "?b2 \<in> set (edges (ctc_before_last_state lem))"
    unfolding ctc_before_last_state_fields(4) using i by auto
  show ?thesis
  proof (cases "even s")
    case True
    then have "e_from ?b1 = s" using i2 by simp
    with mem(1) show ?thesis by blast
  next
    case False
    then have "e_from ?b2 = s" using i2 by (simp add: odd_iff_mod_2_eq_one)
    with mem(2) show ?thesis by blast
  qed
qed


lemma run_ctc_graph:
  assumes "run_ctc label_conversion num_labels lemma_orig = Inr g"
  shows "(\<forall>e\<in>set (edges g). e_from e \<le> e_to e) \<and> 0 < num_states g
       \<and> (\<forall>s. 0 \<le> s \<and> s < num_states g \<longrightarrow>
            (no_outgoing (edges g) s \<longleftrightarrow> s = num_states g - 1))"
proof (cases "lemma_of label_conversion num_labels lemma_orig")
  case (Inl er)
  with assms show ?thesis by (simp add: run_ctc_def)
next
  case lem: (Inr lem)
  show ?thesis
  proof (cases "adds_last_state_for_ctc (ctc_before_last_state lem)")
    case (Inl er)
    with assms lem show ?thesis by (simp add: run_ctc_def)
  next
    case s3: (Inr s3)
    have ne: "lem \<noteq> []"
    proof
      assume "lem = []"
      then have "adds_last_state_for_ctc (ctc_before_last_state lem) = Inl IndexError"
        by (simp add: adds_last_state_for_ctc_def Let_def ctc_before_last_state_fields(2))
      with s3 show False by simp
    qed
    define N where "N = 2 * int (length lem) + 4"
    define T where "T = [Edge (2 * int (length lem) - 2) (2 * int (length lem) + 1) label_blank 1 NoField,
                   Edge (2 * int (length lem) + 1) (2 * int (length lem) + 2) (last lem) 1 NoField,
                   Edge (2 * int (length lem) + 2) (2 * int (length lem) + 3) label_blank 1 NoField]"
    from ctc_last_state [OF ne] s3 have f3: "num_states s3 = N"
      "final_states s3 = [N - 4, N - 1]"
      "edges s3 = edges (ctc_before_last_state lem) @ T"
      by (simp_all add: N_def T_def)
    have len: "1 \<le> int (length lem)" using ne by (cases lem) simp_all
    have E3: "\<forall>e\<in>set (edges s3). e_from e < e_to e \<and> e_to e \<le> N - 1"
    proof
      fix e assume "e \<in> set (edges s3)"
      then consider "e \<in> set (edges (ctc_before_last_state lem))" | "e \<in> set T"
        unfolding f3(3) by auto
      then show "e_from e < e_to e \<and> e_to e \<le> N - 1"
      proof cases
        case 1
        with ctc_before_last_bounds [of lem] have "e_from e < e_to e \<and> e_to e \<le> 2 * int (length lem)"
          by blast
        then show ?thesis by (simp add: N_def)
      next
        case 2
        then show ?thesis unfolding T_def N_def by auto
      qed
    qed
    have out: "\<forall>s. 0 \<le> s \<and> s < N \<and> s \<noteq> N - 4 \<and> s \<noteq> N - 1 \<longrightarrow> (\<exists>e\<in>set (edges s3). e_from e = s)"
    proof (intro allI impI)
      fix s assume s: "0 \<le> s \<and> s < N \<and> s \<noteq> N - 4 \<and> s \<noteq> N - 1"
      then consider "s < 2 * int (length lem)" | "s = 2 * int (length lem) + 1"
        | "s = 2 * int (length lem) + 2"
        unfolding N_def by linarith
      then show "\<exists>e\<in>set (edges s3). e_from e = s"
      proof cases
        case 1
        with s ctc_before_last_outgoing [of s lem] show ?thesis
          unfolding f3(3) by auto
      next
        case 2
        then show ?thesis unfolding f3(3) T_def by simp
      next
        case 3
        then show ?thesis unfolding f3(3) T_def by simp
      qed
    qed
    show ?thesis
    proof (cases "adds_loop_edges CTC s3")
      case (Inl er)
      with assms lem s3 show ?thesis by (simp add: run_ctc_def)
    next
      case s4: (Inr s4)
      with assms lem s3 have g: "g = make_single_final_state s4"
        by (simp add: run_ctc_def)
      from adds_loop_edges_Inr [OF s4] obtain L where
        L: "s4 = s3\<lparr>edges := edges s3 @ L\<rparr>"
          "map e_from L = [1..N - 1]" "map e_to L = [1..N - 1]"
        unfolding f3(1) by auto
      have f4: "num_states s4 = N" "final_states s4 = [N - 4, N - 1]"
        "edges s4 = edges s3 @ L"
        using f3 L(1) by simp_all
      have c1: "\<forall>f\<in>set (final_states s4). f \<noteq> num_states s4"
        unfolding f4 by simp
      have c2: "\<not> (length (final_states s4) = 1 \<and> final_states s4 ! 0 = num_states s4 - 1)"
        unfolding f4 by simp
      have ed: "edges g = (edges s3 @ L) @ concat (map (\<lambda>f. map (final_state_edge N)
                      (filter (\<lambda>e. e_to e = f) (edges s3 @ L))) [N - 4, N - 1])"
        unfolding g make_single_final_state_edges [OF c1 c2] f4 ..
      have "make_single_final_state s4 =
          s4\<lparr>num_states := num_states s4 + 1,
             edges := fold (final_state_step (num_states s4 + 1)) (final_states s4) (edges s4)\<rparr>"
        unfolding make_single_final_state_def using c2 by (rule if_not_P)
      then have ns: "num_states g = N + 1"
        unfolding g by (simp add: f4)
      have fb: "1 \<le> N - 4" "N - 4 < N" "1 \<le> N - 1" "N - 1 < N"
        using len unfolding N_def by linarith+
      from merged_graph_ok [OF E3 out L(2,3) fb ed]
      have "(\<forall>e\<in>set (edges g). e_from e \<le> e_to e)
          \<and> (\<forall>s. 0 \<le> s \<and> s < N + 1 \<longrightarrow> (no_outgoing (edges g) s \<longleftrightarrow> s = N))" .
      moreover have "0 < N + 1" using len unfolding N_def by linarith
      ultimately show ?thesis unfolding ns by simp
    qed
  qed
qed

lemma fold_append_each: "fold (\<lambda>i es. es @ [f i]) ks es = es @ map f ks"
  by (induction ks arbitrary: es) simp_all

lemma run_asg_graph:
  assumes "run_asg label_conversion asg_repetition num_labels lemma_orig = Inr g"
  shows "(\<forall>e\<in>set (edges g). e_from e \<le> e_to e) \<and> 0 < num_states g
       \<and> (\<forall>s. 0 \<le> s \<and> s < num_states g \<longrightarrow>
            (no_outgoing (edges g) s \<longleftrightarrow> s = num_states g - 1))"
proof (cases "lemma_of label_conversion num_labels lemma_orig")
  case (Inl er)
  with assms show ?thesis by (simp add: run_asg_def)
next
  case lem: (Inr lem0)
  define lem where "lem = check_for_repetitions_for_asg asg_repetition num_labels lem0"
  define s1 where "s1 = create_states_from_label_for_asg
     \<lparr>num_states = 0, edges = [], final_states = [], lemma_seq = lem\<rparr>"
  define C where "C = map (\<lambda>i. Edge (int i) (int i + 1) (lem ! i) 1 NoField) [0..<length lem]"
  define N where "N = int (length lem) + 1"
  have f1: "num_states s1 = N" "edges s1 = C"
    by (simp_all add: s1_def create_states_from_label_for_asg_def fold_append_each C_def N_def)
  from assms lem have "adds_loop_edges ASG s1 = Inr g"
    by (simp add: run_asg_def s1_def lem_def)
  from adds_loop_edges_Inr [OF this] obtain L where
    L: "g = s1\<lparr>edges := edges s1 @ L\<rparr>" "map e_from L = [1..N - 1]" "map e_to L = [1..N - 1]"
    unfolding f1(1) by auto
  have fg: "num_states g = N" "edges g = C @ L"
    using L(1) f1 by simp_all
  have Lp: "\<forall>l\<in>set L. e_from l = e_to l \<and> e_to l \<in> set [1..N - 1]"
    using L(2,3) by (rule loops_pointwise)
  have Cp: "\<forall>e\<in>set C. e_to e = e_from e + 1 \<and> 0 \<le> e_from e \<and> e_from e < N - 1"
    unfolding C_def N_def by auto
  have mono: "\<forall>e\<in>set (edges g). e_from e \<le> e_to e"
  proof
    fix e assume "e \<in> set (edges g)"
    then consider "e \<in> set C" | "e \<in> set L" unfolding fg by auto
    then show "e_from e \<le> e_to e"
    proof cases
      case 1
      with Cp show ?thesis by force
    next
      case 2
      with Lp show ?thesis by force
    qed
  qed
  have last: "no_outgoing (edges g) (N - 1)"
    unfolding no_outgoing_iff
  proof (intro ballI impI)
    fix e assume e: "e \<in> set (edges g)" "e_from e = N - 1"
    then consider "e \<in> set C" | "e \<in> set L" unfolding fg by auto
    then show "e_to e = N - 1"
    proof cases
      case 1
      with Cp e show ?thesis by force
    next
      case 2
      with Lp e show ?thesis by force
    qed
  qed
  have others: "\<not> no_outgoing (edges g) s" if s: "0 \<le> s" "s < N - 1" for s
  proof -
    have "nat s < length lem" using s by (simp add: N_def)
    then have m: "nat s \<in> set [0..<length lem]" by simp
    have "Edge (int (nat s)) (int (nat s) + 1) (lem ! nat s) 1 NoField \<in> set C"
      unfolding C_def set_map using m by (rule imageI)
    moreover have "int (nat s) = s" using s by simp
    ultimately have "Edge s (s + 1) (lem ! nat s) 1 NoField \<in> set C" by simp
    then have "Edge s (s + 1) (lem ! nat s) 1 NoField \<in> set (edges g)"
      unfolding fg by simp
    then show ?thesis unfolding no_outgoing_iff by force
  qed
  have "\<forall>s. 0 \<le> s \<and> s < N \<longrightarrow> (no_outgoing (edges g) s \<longleftrightarrow> s = N - 1)"
  proof (intro allI impI)
    fix s assume "0 \<le> s \<and> s < N"
    then consider "s = N - 1" | "0 \<le> s" "s < N - 1" by force
    then show "no_outgoing (edges g) s \<longleftrightarrow> s = N - 1"
    proof cases
      case 1
      with last show ?thesis by simp
    next
      case 2
      with others show ?thesis by force
    qed
  qed
  moreover have "0 < N" by (simp add: N_def)
  ultimately show ?thesis using mono unfolding fg(1) by blast
qed

text \<open>
  Claim C1. Every graph that the ASG builder or the CTC builder returns (the run may also
  end in an error, for instance on an empty CTC label sequence) has these properties:
  every edge satisfies \<open>from \<le> to\<close>, and among the states \<open>0 .. num_states - 1\<close> the last
  one, the final state, is the only one without an outgoing edge other than a loop on
  itself.
\<close>

theorem asg_ctc_graph_invariant:
  assumes "run_asg label_conversion asg_repetition num_labels lemma_orig = Inr g
         \<or> run_ctc label_conversion num_labels lemma_orig = Inr g"
  shows "(\<forall>e\<in>set (edges g). e_from e \<le> e_to e) \<and> 0 < num_states g
       \<and> (\<forall>s. 0 \<le> s \<and> s < num_states g \<longrightarrow>
            (no_outgoing (edges g) s \<longleftrightarrow> s = num_states g - 1))"
  using assms run_asg_graph run_ctc_graph by blast

theorem asg_ctc_graph_invariant_witness:
  "(case run_ctc False 27 [LStr ''a'', LStr ''b''] of
      Inl er \<Rightarrow> False
    | Inr g \<Rightarrow> list_all (\<lambda>e. e_from e \<le> e_to e) (edges g)
              \<and> num_states g = 9 \<and> length (edges g) = 21
              \<and> map (no_outgoing (edges g)) [0..num_states g - 1]
                  = [False, False, False, False, False, False, False, False, True])
   \<and> (case run_asg False 2 27 [LStr ''a'', LStr ''a'', LStr ''b''] of
        Inl er \<Rightarrow> False
      | Inr g \<Rightarrow> list_all (\<lambda>e. e_from e \<le> e_to e) (edges g)
                \<and> num_states g = 4 \<and> length (edges g) = 6
                \<and> map (no_outgoing (edges g)) [0..num_states g - 1]
                    = [False, False, False, True])"
proof -
  let ?G = "\<lparr>num_states = 9,
            edges =
              [Edge 0 2 (LStr ''a'') 1 NoField, Edge 2 4 (LStr ''b'') 1 NoField,
               Edge 0 1 label_blank 1 NoField, Edge 1 2 (LStr ''a'') 1 NoField,
               Edge 2 3 label_blank 1 NoField, Edge 3 4 (LStr ''b'') 1 NoField,
               Edge 2 5 label_blank 1 NoField, Edge 5 6 (LStr ''b'') 1 NoField,
               Edge 6 7 label_blank 1 NoField,
               Edge 1 1 label_blank 0 PyNone, Edge 2 2 (LStr ''a'') 0 PyNone,
               Edge 3 3 label_blank 0 PyNone, Edge 4 4 (LStr ''b'') 0 PyNone,
               Edge 5 5 label_blank 0 PyNone, Edge 6 6 (LStr ''b'') 0 PyNone,
               Edge 7 7 label_blank 0 PyNone,
               Edge 2 8 (LStr ''b'') 1 NoField, Edge 3 8 (LStr ''b'') 1 NoField,
               Edge 4 8 (LStr ''b'') 1 NoField, Edge 6 8 label_blank 1 NoField,
               Edge 7 8 label_blank 1 NoField],
            final_states = [4, 7], lemma_seq = [LStr ''a'', LStr ''b'']\<rparr>"
  have ev: "run_ctc False 27 [LStr ''a'', LStr ''b''] = Inr ?G"
    by code_simp
  note inv = asg_ctc_graph_invariant [where asg_repetition = 2, OF disjI2 [OF ev]]
  from inv have "\<forall>e\<in>set (edges ?G). e_from e \<le> e_to e" by (rule conjunct1)
  then have a: "list_all (\<lambda>e. e_from e \<le> e_to e) (edges ?G)"
    by (simp only: list_all_iff)
  have b: "num_states ?G = 9 \<and> length (edges ?G) = 21
      \<and> map (no_outgoing (edges ?G)) [0..num_states ?G - 1]
          = [False, False, False, False, False, False, False, False, True]"
    by code_simp
  let ?A = "\<lparr>num_states = 4,
            edges =
              [Edge 0 1 (LStr ''a'') 1 NoField, Edge 1 2 (LInt 28) 1 NoField,
               Edge 2 3 (LStr ''b'') 1 NoField, Edge 1 1 (LStr ''a'') 0 PyNone,
               Edge 2 2 (LInt 28) 0 PyNone, Edge 3 3 (LStr ''b'') 0 PyNone],
            final_states = [], lemma_seq = [LStr ''a'', LInt 28, LStr ''b'']\<rparr>"
  have ev': "run_asg False 2 27 [LStr ''a'', LStr ''a'', LStr ''b''] = Inr ?A"
    by code_simp
  note inv' = asg_ctc_graph_invariant [OF disjI1 [OF ev']]
  from inv' have "\<forall>e\<in>set (edges ?A). e_from e \<le> e_to e" by (rule conjunct1)
  then have a': "list_all (\<lambda>e. e_from e \<le> e_to e) (edges ?A)"
    by (simp only: list_all_iff)
  have b': "num_states ?A = 4 \<and> length (edges ?A) = 6
      \<and> map (no_outgoing (edges ?A)) [0..num_states ?A - 1] = [False, False, False, True]"
    by code_simp
  show ?thesis
    by (simp only: ev ev' sum.case) (use a b a' b' in blast)
qed

section \<open>The builders return a graph\<close>

text \<open>
  The runs do return: without label conversion, the CTC builder returns a graph for every
  non-empty label sequence and the ASG builder for every label sequence, provided no label
  is the epsilon place holder (the loop stage finds no label for a state that only
  epsilon edges enter).
\<close>

lemma loop_edge_step_succeeds:
  assumes "\<exists>e\<in>set es. e_to e = s \<and> e_label e \<noteq> EPS"
  shows "\<exists>x. loop_edge_step s es = Inr (es @ [x])"
proof (cases "indices_where (\<lambda>e. e_to e = s \<and> e_label e \<noteq> EPS) es")
  case Nil
  from indices_where_Nil [OF Nil] have "\<forall>e\<in>set es. \<not> (e_to e = s \<and> e_label e \<noteq> EPS)"
    by (simp only: filter_empty_conv)
  with assms show ?thesis by blast
next
  case (Cons k ks)
  then show ?thesis by (simp add: loop_edge_step_def Let_def)
qed

lemma for_each_loop_edges_succeeds:
  assumes "\<forall>s\<in>set ss. \<exists>e\<in>set es. e_to e = s \<and> e_label e \<noteq> EPS"
  shows "\<exists>es'. for_each ss loop_edge_step es = Inr es'"
  using assms
proof (induction ss arbitrary: es)
  case Nil
  show ?case by simp
next
  case (Cons s ss)
  from Cons.prems have "\<exists>e\<in>set es. e_to e = s \<and> e_label e \<noteq> EPS" by simp
  from loop_edge_step_succeeds [OF this] obtain x where x: "loop_edge_step s es = Inr (es @ [x])"
    by blast
  have "\<forall>s\<in>set ss. \<exists>e\<in>set (es @ [x]). e_to e = s \<and> e_label e \<noteq> EPS"
    using Cons.prems by auto
  from Cons.IH [OF this] obtain es' where "for_each ss loop_edge_step (es @ [x]) = Inr es'"
    by blast
  with x show ?case by simp
qed

lemma ctc_before_last_incoming:
  assumes "1 \<le> s" "s \<le> 2 * int (length lem)" "EPS \<notin> set lem"
  shows "\<exists>e\<in>set (edges (ctc_before_last_state lem)). e_to e = s \<and> e_label e \<noteq> EPS"
proof -
  define i where "i = nat ((s - 1) div 2)"
  have i: "i < length lem" using assms(1,2) by (simp add: i_def)
  have i2: "int i = (s - 1) div 2" using assms(1) by (simp add: i_def)
  let ?b1 = "Edge (2 * int i) (2 * int i + 1) label_blank 1 NoField"
  let ?b2 = "Edge (2 * int i + 1) (2 * int i + 2) (lem ! i) 1 NoField"
  have mem: "?b1 \<in> set (edges (ctc_before_last_state lem))"
    "?b2 \<in> set (edges (ctc_before_last_state lem))"
    unfolding ctc_before_last_state_fields(4) using i by auto
  have l2: "lem ! i \<noteq> EPS" using i assms(3) nth_mem [of i lem] by metis
  show ?thesis
  proof (cases "even s")
    case True
    then have "2 * ((s - 1) div 2) + 2 = s" by presburger
    then have "e_to ?b2 = s" using i2 by simp
    with mem(2) l2 show ?thesis by force
  next
    case False
    then have "e_to ?b1 = s" using i2 by simp
    moreover have "e_label ?b1 \<noteq> EPS" by (simp add: label_blank_def EPS_def)
    ultimately show ?thesis using mem(1) by blast
  qed
qed

lemma run_ctc_returns:
  assumes "lemma_orig \<noteq> []" "EPS \<notin> set lemma_orig"
  shows "\<exists>g. run_ctc False num_labels lemma_orig = Inr g"
proof -
  let ?n = "int (length lemma_orig)"
  from ctc_last_state [OF assms(1)] obtain s3 where
    s3: "adds_last_state_for_ctc (ctc_before_last_state lemma_orig) = Inr s3"
      "num_states s3 = 2 * ?n + 4"
      "edges s3 = edges (ctc_before_last_state lemma_orig)
         @ [Edge (2 * ?n - 2) (2 * ?n + 1) label_blank 1 NoField,
            Edge (2 * ?n + 1) (2 * ?n + 2) (last lemma_orig) 1 NoField,
            Edge (2 * ?n + 2) (2 * ?n + 3) label_blank 1 NoField]"
    by blast
  have lst: "last lemma_orig \<noteq> EPS" using assms last_in_set [OF assms(1)] by metis
  have bl: "label_blank \<noteq> EPS" by (simp add: label_blank_def EPS_def)
  have "\<forall>s\<in>set [1..num_states s3 - 1]. \<exists>e\<in>set (edges s3). e_to e = s \<and> e_label e \<noteq> EPS"
  proof
    fix s assume "s \<in> set [1..num_states s3 - 1]"
    then have "1 \<le> s" "s \<le> 2 * ?n + 3" unfolding s3(2) by simp_all
    then consider "s \<le> 2 * ?n" | "s = 2 * ?n + 1" | "s = 2 * ?n + 2" | "s = 2 * ?n + 3"
      by linarith
    then show "\<exists>e\<in>set (edges s3). e_to e = s \<and> e_label e \<noteq> EPS"
    proof cases
      case 1
      from ctc_before_last_incoming [OF \<open>1 \<le> s\<close> 1 assms(2)] show ?thesis
        unfolding s3(3) by auto
    next
      case 2
      then show ?thesis unfolding s3(3) using bl by simp
    next
      case 3
      then show ?thesis unfolding s3(3) using lst by simp
    next
      case 4
      then show ?thesis unfolding s3(3) using bl by simp
    qed
  qed
  from for_each_loop_edges_succeeds [OF this] obtain es where
    "for_each [1..num_states s3 - 1] loop_edge_step (edges s3) = Inr es" by blast
  then have "adds_loop_edges CTC s3 = Inr (s3\<lparr>edges := es\<rparr>)"
    by (simp add: adds_loop_edges_def Let_def)
  with s3(1) have "run_ctc False num_labels lemma_orig = Inr (make_single_final_state (s3\<lparr>edges := es\<rparr>))"
    by (simp add: run_ctc_def lemma_of_def)
  then show ?thesis by blast
qed


lemma reps_members:
  "\<forall>l\<in>set (reps (rep_scan r nl xs)). l \<in> set xs \<or> (\<exists>k. l = LInt k)"
proof (induction xs rule: rev_induct)
  case Nil
  show ?case by (simp add: rep_scan_def rep_init_def)
next
  case (snoc x xs)
  then show ?case by (auto simp add: rep_scan_snoc rep_step_def Let_def)
qed

lemma folded_without_eps:
  assumes "EPS \<notin> set lem"
  shows "EPS \<notin> set (check_for_repetitions_for_asg r nl lem)"
proof (cases "r = 0")
  case True
  with assms show ?thesis by (simp add: check_for_repetitions_for_asg_def)
next
  case False
  have "\<forall>k. EPS \<noteq> LInt k" by (simp add: EPS_def)
  with reps_members [of r nl lem] assms have "EPS \<notin> set (reps (rep_scan r nl lem))"
    by blast
  with False show ?thesis by (simp add: check_for_repetitions_for_asg_def)
qed

lemma run_asg_returns:
  assumes "EPS \<notin> set lemma_orig"
  shows "\<exists>g. run_asg False asg_repetition num_labels lemma_orig = Inr g"
proof -
  define lem where "lem = check_for_repetitions_for_asg asg_repetition num_labels lemma_orig"
  define s1 where "s1 = create_states_from_label_for_asg
     \<lparr>num_states = 0, edges = [], final_states = [], lemma_seq = lem\<rparr>"
  have f1: "num_states s1 = int (length lem) + 1"
    "edges s1 = map (\<lambda>i. Edge (int i) (int i + 1) (lem ! i) 1 NoField) [0..<length lem]"
    by (simp_all add: s1_def create_states_from_label_for_asg_def fold_append_each)
  have ne: "EPS \<notin> set lem" unfolding lem_def using assms by (rule folded_without_eps)
  have "\<forall>s\<in>set [1..num_states s1 - 1]. \<exists>e\<in>set (edges s1). e_to e = s \<and> e_label e \<noteq> EPS"
  proof
    fix s assume "s \<in> set [1..num_states s1 - 1]"
    then have s: "1 \<le> s" "s \<le> int (length lem)" unfolding f1(1) by simp_all
    define i where "i = nat (s - 1)"
    have i: "i < length lem" "int i + 1 = s" using s by (simp_all add: i_def)
    then have m: "i \<in> set [0..<length lem]" by simp
    have "Edge (int i) (int i + 1) (lem ! i) 1 NoField \<in> set (edges s1)"
      unfolding f1(2) set_map using m by (rule imageI)
    moreover have "lem ! i \<noteq> EPS" using ne nth_mem [OF i(1)] by metis
    ultimately show "\<exists>e\<in>set (edges s1). e_to e = s \<and> e_label e \<noteq> EPS"
      using i(2) by force
  qed
  from for_each_loop_edges_succeeds [OF this] obtain es where
    "for_each [1..num_states s1 - 1] loop_edge_step (edges s1) = Inr es" by blast
  then have "adds_loop_edges ASG s1 = Inr (s1\<lparr>edges := es\<rparr>)"
    by (simp add: adds_loop_edges_def Let_def)
  then have "run_asg False asg_repetition num_labels lemma_orig = Inr (s1\<lparr>edges := es\<rparr>)"
    by (simp add: run_asg_def lemma_of_def s1_def lem_def)
  then show ?thesis by blast
qed

end
